theory Spec2Isabelle
  imports Complex_Main "HOL-Library.AList" "HOL-Library.List_Lexorder" "HOL-Library.Char_ord"
begin

section \<open>Errors\<close>

text \<open>
  The exceptions the modelled code can raise. An exception is a value: every operation
  that may raise returns \<open>error + 'a\<close>, with \<open>Inl\<close> the exception.
\<close>

datatype error =
    QueueFull
  | QueueEmpty
  | ValueError
  | IndexError
  | KeyError
  | SqliteError

section \<open>The tick buffer (ingestion.py, \<open>_tick_queue\<close> and \<open>_on_message\<close>)\<close>

text \<open>
  \<open>queue.Queue(maxsize)\<close> of the Python standard library, without its lock: the items
  in FIFO order (head = oldest) and the capacity. A \<open>maxsize\<close> of zero or less means
  an unbounded queue, as in Python.
\<close>

record 'a pyqueue =
  maxsize :: int
  items :: "'a list"

definition new_queue :: "int \<Rightarrow> 'a pyqueue" where
  "new_queue n = \<lparr>maxsize = n, items = []\<rparr>"

definition put_nowait :: "'a \<Rightarrow> 'a pyqueue \<Rightarrow> error + 'a pyqueue" where
  "put_nowait x q =
     (if 0 < maxsize q \<and> maxsize q \<le> int (length (items q)) then Inl QueueFull
      else Inr (q\<lparr>items := items q @ [x]\<rparr>))"

definition get_nowait :: "'a pyqueue \<Rightarrow> error + ('a \<times> 'a pyqueue)" where
  "get_nowait q =
     (case items q of
        [] \<Rightarrow> Inl QueueEmpty
      | x # xs \<Rightarrow> Inr (x, q\<lparr>items := xs\<rparr>))"

text \<open>
  Lines 29-37 of \<open>_on_message\<close>: \<open>put_nowait\<close>; on \<open>queue.Full\<close> drop the oldest
  item and put again. Only \<open>queue.Empty\<close> is caught in the inner \<open>try\<close>, so a
  \<open>queue.Full\<close> raised by the second \<open>put_nowait\<close> would propagate.
\<close>

definition offer :: "'a \<Rightarrow> 'a pyqueue \<Rightarrow> error + 'a pyqueue" where
  "offer tick q =
     (case put_nowait tick q of
        Inr q' \<Rightarrow> Inr q'
      | Inl QueueFull \<Rightarrow>
          (case get_nowait q of
             Inl QueueEmpty \<Rightarrow> Inr q
           | Inl e \<Rightarrow> Inl e
           | Inr (old, q1) \<Rightarrow> put_nowait tick q1)
      | Inl e \<Rightarrow> Inl e)"

text \<open>A producer offering a sequence of ticks, with no consumer running in between.\<close>

fun offer_all :: "'a list \<Rightarrow> 'a pyqueue \<Rightarrow> error + 'a pyqueue" where
  "offer_all [] q = Inr q"
| "offer_all (t # ts) q =
     (case offer t q of Inl e \<Rightarrow> Inl e | Inr q' \<Rightarrow> offer_all ts q')"

section \<open>The connector's reconnection loop (ingestion.py, \<open>_start_socket\<close>)\<close>

text \<open>
  One iteration of the \<open>while not stop_event.is_set()\<close> loop sees two things of its
  environment: the value of the stop flag when the loop condition is tested, and how the
  connection attempt ended (\<open>run_forever\<close> returned, or an exception was raised).
\<close>

datatype conn_outcome = Closed | Failed

text \<open>
  The loop over a finite prefix of the environment's behaviour, started with the current
  value of \<open>backoff\<close>; the result is the list of the arguments of \<open>time.sleep\<close>, in
  order. Both branches of the \<open>try\<close> update \<open>backoff\<close> before the sleep.
\<close>

fun socket_loop :: "int \<Rightarrow> (bool \<times> conn_outcome) list \<Rightarrow> int list" where
  "socket_loop backoff [] = []"
| "socket_loop backoff ((stop, outcome) # env) =
     (if stop then []
      else
        (let backoff' = (case outcome of
                           Closed \<Rightarrow> min (backoff * 2) 30
                         | Failed \<Rightarrow> min (backoff * 2) 30)
         in backoff' # socket_loop backoff' env))"

definition start_socket :: "(bool \<times> conn_outcome) list \<Rightarrow> int list" where
  "start_socket env = socket_loop 1 env"

section \<open>Timestamps as text\<close>

text \<open>
  An instant is a number of milliseconds since the Unix epoch (the field \<open>T\<close> of a feed
  message). Both stores of the program keep time as text: \<open>_on_message\<close> writes
  \<open>datetime.fromtimestamp(T / 1000, tz=timezone.utc).isoformat()\<close>, and the SQL of
  \<open>prune_ticks_older_than\<close> compares that text with the text \<open>datetime('now', ...)\<close>
  of SQLite. The two formats are those of the Python and SQLite documentation; the
  calendar is the proleptic Gregorian one, computed from the day number. The functions
  are exact on whole milliseconds and seconds, as the program is for the instants of the
  years 1 to 2241: Python raises outside the years 1 to 9999, and from 2242 on the
  float64 quotient \<open>T / 1000\<close> can be off by a microsecond.
\<close>

definition digit :: "int \<Rightarrow> char" where
  "digit d = ''0123456789'' ! nat (d mod 10)"

definition pad2 :: "int \<Rightarrow> string" where
  "pad2 k = [digit (k div 10), digit k]"

definition pad4 :: "int \<Rightarrow> string" where
  "pad4 k = pad2 (k div 100) @ pad2 k"

definition pad6 :: "int \<Rightarrow> string" where
  "pad6 k = pad2 (k div 10000) @ pad4 k"

text \<open>Year, month and day of the day number \<open>z\<close> (days since 1970-01-01).\<close>

definition civil_from_days :: "int \<Rightarrow> int \<times> int \<times> int" where
  "civil_from_days z0 =
     (let z = z0 + 719468;
          era = z div 146097;
          doe = z mod 146097;
          yoe = (doe - doe div 1460 + doe div 36524 - doe div 146096) div 365;
          doy = doe - (365 * yoe + yoe div 4 - yoe div 100);
          mp = (5 * doy + 2) div 153;
          d = doy - (153 * mp + 2) div 5 + 1;
          m = (if mp < 10 then mp + 3 else mp - 9);
          y = yoe + era * 400 + (if m \<le> 2 then 1 else 0)
      in (y, m, d))"

definition date_text :: "int \<Rightarrow> string" where
  "date_text z = (case civil_from_days z of
                    (y, m, d) \<Rightarrow> pad4 y @ ''-'' @ pad2 m @ ''-'' @ pad2 d)"

definition clock_text :: "int \<Rightarrow> string" where
  "clock_text s = pad2 (s div 3600) @ '':'' @ pad2 (s div 60 mod 60) @ '':'' @ pad2 (s mod 60)"

text \<open>
  \<open>isoformat\<close> of an aware UTC \<open>datetime\<close>: \<open>YYYY-MM-DDTHH:MM:SS+00:00\<close>, with
  \<open>.ffffff\<close> after the seconds when the microsecond field is not zero.
\<close>

definition isoformat :: "int \<Rightarrow> string" where
  "isoformat ms =
     (let r = ms mod 86400000; us = (r mod 1000) * 1000
      in date_text (ms div 86400000) @ ''T'' @ clock_text (r div 1000)
         @ (if us = 0 then [] else ''.'' @ pad6 us) @ ''+00:00'')"

text \<open>
  SQLite's \<open>datetime\<close> of an instant given in seconds since the epoch:
  \<open>YYYY-MM-DD HH:MM:SS\<close>.
\<close>

definition sqlite_datetime :: "int \<Rightarrow> string" where
  "sqlite_datetime s = date_text (s div 86400) @ '' '' @ clock_text (s mod 86400)"

section \<open>Ticks, bars and the store (database.py)\<close>

text \<open>
  A tick as \<open>_on_message\<close> builds it. The model keeps the instant in \<open>t_time\<close> and
  produces the ISO text where the tick is written to the store; the aggregation reads the
  instant back with \<open>pd.to_datetime\<close>. Prices and quantities are real numbers: the
  rounding of \<open>float\<close> is not modelled.
\<close>

record tick =
  t_time :: int
  t_symbol :: string
  price :: real
  qty :: real

text \<open>A row of the table \<open>ticks\<close>: the column \<open>time\<close> is \<open>TEXT\<close>.\<close>

record tick_row =
  r_time :: string
  r_symbol :: string
  r_price :: real
  r_qty :: real

text \<open>A bar, and a row of a bar table: the same seven fields.\<close>

record bar =
  b_time :: string
  b_symbol :: string
  b_open :: real
  b_high :: real
  b_low :: real
  b_close :: real
  b_volume :: real

text \<open>
  The database: the rows of \<open>ticks\<close> in insertion order and the rows of every bar table,
  by table name. \<open>UNIQUE(symbol, time)\<close> on a bar table is the invariant
  \<open>unique_keys\<close> of its rows.
\<close>

record db =
  ticks :: "tick_row list"
  bar_tables :: "string \<Rightarrow> bar list"

definition empty_db :: db where
  "empty_db = \<lparr>ticks = [], bar_tables = (\<lambda>tbl. [])\<rparr>"

definition BAR_TABLES :: "(string \<times> string) list" where
  "BAR_TABLES = [(''1s'', ''bars_1s''), (''1m'', ''bars_1m''), (''5m'', ''bars_5m'')]"

definition bar_key :: "bar \<Rightarrow> string \<times> string" where
  "bar_key b = (b_symbol b, b_time b)"

definition unique_keys :: "bar list \<Rightarrow> bool" where
  "unique_keys rows = distinct (map bar_key rows)"

text \<open>
  One row of the \<open>INSERT ... ON CONFLICT(symbol, time) DO UPDATE SET\<close> statement: the
  row with the key of \<open>b\<close>, if there is one, gets the five values of \<open>b\<close>; otherwise
  \<open>b\<close> is appended.
\<close>

fun upsert_bar :: "bar \<Rightarrow> bar list \<Rightarrow> bar list" where
  "upsert_bar b [] = [b]"
| "upsert_bar b (r # rows) =
     (if bar_key r = bar_key b
      then r\<lparr>b_open := b_open b, b_high := b_high b, b_low := b_low b,
             b_close := b_close b, b_volume := b_volume b\<rparr> # rows
      else r # upsert_bar b rows)"

text \<open>
  Every write to the store can fail for reasons outside the program (a locked or
  unwritable database file). The model takes that as an input, \<open>fails\<close>: the call then
  raises \<open>sqlite3.Error\<close> and, the transaction not being committed, leaves the store
  as it was.
\<close>

definition insert_or_replace_bars :: "bool \<Rightarrow> string \<Rightarrow> bar list \<Rightarrow> db \<Rightarrow> error + db" where
  "insert_or_replace_bars fails table_name bars d =
     (if bars = [] then Inr d
      else if fails then Inl SqliteError
      else Inr (d\<lparr>bar_tables :=
                   (bar_tables d)(table_name := fold upsert_bar bars (bar_tables d table_name))\<rparr>))"

definition row_of_tick :: "tick \<Rightarrow> tick_row" where
  "row_of_tick t =
     \<lparr>r_time = isoformat (t_time t), r_symbol = t_symbol t, r_price = price t, r_qty = qty t\<rparr>"

definition insert_ticks_bulk :: "bool \<Rightarrow> tick list \<Rightarrow> db \<Rightarrow> error + db" where
  "insert_ticks_bulk fails ts d =
     (if ts = [] then Inr d
      else if fails then Inl SqliteError
      else Inr (d\<lparr>ticks := ticks d @ map row_of_tick ts\<rparr>))"

text \<open>
  \<open>DELETE FROM ticks WHERE time < datetime('now', '-<hours> hours')\<close>, with \<open>now\<close> the
  clock of SQLite in seconds since the epoch. The comparison is the one of SQLite on
  \<open>TEXT\<close>: byte by byte, which on lists of characters is the lexicographic order.
  A negative \<open>hours\<close> makes the modifier \<open>--n hours\<close>, which SQLite does not accept:
  the cutoff is \<open>NULL\<close> and no row is deleted. Only the table \<open>ticks\<close> is named.
\<close>

definition prune_ticks_older_than :: "bool \<Rightarrow> int \<Rightarrow> int option \<Rightarrow> db \<Rightarrow> error + db" where
  "prune_ticks_older_than fails now hours d =
     (case hours of
        None \<Rightarrow> Inr d
      | Some h \<Rightarrow>
          if fails then Inl SqliteError
          else if h < 0 then Inr d
          else Inr (d\<lparr>ticks :=
                       filter (\<lambda>r. \<not> r_time r < sqlite_datetime (now - h * 3600)) (ticks d)\<rparr>))"

section \<open>Aggregation into bars (ingestion.py, \<open>_aggregate_and_store_bars\<close>)\<close>

text \<open>
  The resampling rules with the width of their windows in milliseconds (\<open>1S\<close>, \<open>1T\<close>,
  \<open>5T\<close>), in the order of the dictionary \<open>rules\<close>.
\<close>

definition rules :: "(string \<times> int) list" where
  "rules = [(''1s'', 1000), (''1m'', 60000), (''5m'', 300000)]"

text \<open>The start of the window of width \<open>w\<close> that holds the instant \<open>t\<close>.\<close>

definition window_start :: "int \<Rightarrow> int \<Rightarrow> int" where
  "window_start w t = (t div w) * w"

text \<open>
  The ticks of one group: symbol \<open>s\<close>, window starting at \<open>b\<close>. \<open>resample\<close> orders the
  rows of a group by time; the sort is stable, so ticks with equal timestamps keep their
  order in the batch.
\<close>

definition bucket :: "int \<Rightarrow> tick list \<Rightarrow> string \<Rightarrow> int \<Rightarrow> tick list" where
  "bucket w batch s b =
     sort_key t_time (filter (\<lambda>t. t_symbol t = s \<and> window_start w (t_time t) = b) batch)"

text \<open>
  The named aggregations: \<open>first\<close>, \<open>max\<close>, \<open>min\<close>, \<open>last\<close> of the price, \<open>sum\<close> of
  the quantity. It is applied to non-empty buckets only.
\<close>

definition make_bar :: "string \<Rightarrow> int \<Rightarrow> tick list \<Rightarrow> bar" where
  "make_bar s b ts =
     \<lparr>b_time = isoformat b, b_symbol = s,
      b_open = price (hd ts),
      b_high = Max (set (map price ts)),
      b_low = Min (set (map price ts)),
      b_close = price (last ts),
      b_volume = sum_list (map qty ts)\<rparr>"

text \<open>
  \<open>groupby("symbol").resample(rule).agg(...).dropna()\<close>: one row for every symbol of
  the batch and every window of that symbol that holds a tick, symbols and windows in
  ascending order. The windows without ticks, which \<open>resample\<close> fills with missing
  values, are the rows that \<open>dropna\<close> removes.
\<close>

definition group_windows :: "int \<Rightarrow> tick list \<Rightarrow> string \<Rightarrow> int list" where
  "group_windows w batch s =
     sort (remdups (map (\<lambda>t. window_start w (t_time t)) (filter (\<lambda>t. t_symbol t = s) batch)))"

definition bars_of_batch :: "int \<Rightarrow> tick list \<Rightarrow> bar list" where
  "bars_of_batch w batch =
     concat (map (\<lambda>s. map (\<lambda>b. make_bar s b (bucket w batch s b)) (group_windows w batch s))
                 (sort (remdups (map t_symbol batch))))"

text \<open>
  The loop over \<open>rules\<close>, for a batch whose time texts \<open>pd.to_datetime\<close> parses
  (line 89; pandas 2 refuses a batch that mixes texts with and without a fraction of a
  second, and then no bar is computed). \<open>fails\<close> tells, for a table, whether the write
  to it raises.
  The result is the store as the loop leaves it and the exception that ended it, if any:
  the tables written before the failing one keep their new rows.
\<close>

fun store_bars :: "(string \<Rightarrow> bool) \<Rightarrow> (string \<times> int) list \<Rightarrow> tick list \<Rightarrow> db \<Rightarrow> error option \<times> db" where
  "store_bars fails [] batch d = (None, d)"
| "store_bars fails ((tf, w) # rest) batch d =
     (case map_of BAR_TABLES tf of
        None \<Rightarrow> (Some KeyError, d)
      | Some table \<Rightarrow>
          (let bars = bars_of_batch w batch
           in if bars = [] then store_bars fails rest batch d
              else (case insert_or_replace_bars (fails table) table bars d of
                      Inl e \<Rightarrow> (Some e, d)
                    | Inr d' \<Rightarrow> store_bars fails rest batch d')))"

definition aggregate_and_store_bars :: "(string \<Rightarrow> bool) \<Rightarrow> tick list \<Rightarrow> db \<Rightarrow> error option \<times> db" where
  "aggregate_and_store_bars fails batch d =
     (if batch = [] then (None, d) else store_bars fails rules batch d)"

section \<open>The flush loop (ingestion.py, \<open>_flush_loop\<close>)\<close>

text \<open>The persistence calls of one cycle.\<close>

datatype pcall = InsertTicks | UpsertBars string | Prune

text \<open>
  What one cycle of \<open>while True\<close> gets from outside the loop: the ticks its inner loop
  drained from the buffer, the persistence calls that raise in this cycle, the value of
  \<open>time.time()\<close> in the retention test, the clock of SQLite during the prune and the
  value of \<open>time.time()\<close> after it.
\<close>

record cycle =
  c_batch :: "tick list"
  raises :: "pcall list"
  check_time :: real
  sql_now :: int
  after_time :: real

text \<open>
  The body of the loop, which has no \<open>try\<close>: an exception of any of the three calls
  leaves the body, and the loop with it. The result is the exception if one was raised,
  the store and \<open>last_prune\<close>. \<open>if retention_hours and ...\<close> is false for \<open>None\<close>
  and for zero.
\<close>

definition flush_cycle :: "int option \<Rightarrow> cycle \<Rightarrow> db \<Rightarrow> real \<Rightarrow> error option \<times> db \<times> real" where
  "flush_cycle retention_hours c d last_prune =
     (let (err, d1) =
            (if c_batch c = [] then (None, d)
             else (case insert_ticks_bulk (InsertTicks \<in> set (raises c)) (c_batch c) d of
                     Inl e \<Rightarrow> (Some e, d)
                   | Inr d' \<Rightarrow>
                       aggregate_and_store_bars (\<lambda>tbl. UpsertBars tbl \<in> set (raises c)) (c_batch c) d'))
      in case err of
           Some e \<Rightarrow> (Some e, d1, last_prune)
         | None \<Rightarrow>
             if retention_hours \<noteq> None \<and> retention_hours \<noteq> Some 0
                \<and> check_time c - last_prune > 300
             then (case prune_ticks_older_than (Prune \<in> set (raises c)) (sql_now c) retention_hours d1 of
                     Inl e \<Rightarrow> (Some e, d1, last_prune)
                   | Inr d2 \<Rightarrow> (None, d2, after_time c))
             else (None, d1, last_prune))"

text \<open>
  The loop over the cycles the environment provides. \<open>Looping\<close>: all of them are done
  and the worker is still in its loop. \<open>Terminated\<close>: an exception left the loop and
  ended the worker thread; the cycles after the failing one are never run.
\<close>

datatype worker = Looping db real | Terminated error db "cycle list"

fun flush_loop :: "int option \<Rightarrow> cycle list \<Rightarrow> db \<Rightarrow> real \<Rightarrow> worker" where
  "flush_loop retention_hours [] d last_prune = Looping d last_prune"
| "flush_loop retention_hours (c # cs) d last_prune =
     (case flush_cycle retention_hours c d last_prune of
        (Some e, d', lp) \<Rightarrow> Terminated e d' cs
      | (None, d', lp) \<Rightarrow> flush_loop retention_hours cs d' lp)"

section \<open>The connector registries (ingestion.py, \<open>start_stream\<close>, \<open>stop_stream\<close>, \<open>get_status\<close>)\<close>

text \<open>
  The module's globals. A dictionary is an association list in insertion order.
  \<open>threading.Event\<close> objects are shared between a registry and the thread that polls
  them, so they live in a store of their own, \<open>events\<close>, and are named by their index
  there; a thread is the pair of arguments it was created with.
\<close>

record registries =
  stream_threads :: "(string \<times> (string \<times> nat)) list"
  stop_flags :: "(string \<times> nat) list"
  events :: "bool list"
  flush_thread_alive :: bool

definition no_streams :: registries where
  "no_streams = \<lparr>stream_threads = [], stop_flags = [], events = [], flush_thread_alive = False\<rparr>"

text \<open>
  \<open>start_stream\<close>. \<open>create_tables\<close> writes to the database and may raise
  (\<open>db_fails\<close>); it is called before any registry is touched. The outcome is the
  exception, if any, and the globals after the call.
\<close>

definition start_stream :: "bool \<Rightarrow> string \<Rightarrow> registries \<Rightarrow> error option \<times> registries" where
  "start_stream db_fails symbol g =
     (if symbol \<in> set (map fst (stream_threads g)) then (None, g)
      else if db_fails then (Some SqliteError, g)
      else
        (let stop_event = length (events g);
             thread = (symbol, stop_event)
         in (None, g\<lparr>flush_thread_alive := True,
                      events := events g @ [False],
                      stream_threads := AList.update symbol thread (stream_threads g),
                      stop_flags := AList.update symbol stop_event (stop_flags g)\<rparr>)))"

text \<open>
  \<open>stop_stream\<close>. \<open>_stop_flags[symbol]\<close> raises \<open>KeyError\<close> for a symbol that has a
  thread but no flag.
\<close>

definition stop_stream :: "string \<Rightarrow> registries \<Rightarrow> error option \<times> registries" where
  "stop_stream symbol g =
     (if symbol \<notin> set (map fst (stream_threads g)) then (None, g)
      else (case map_of (stop_flags g) symbol of
              None \<Rightarrow> (Some KeyError, g)
            | Some ev \<Rightarrow>
                (None, g\<lparr>events := (events g)[ev := True],
                         stream_threads := AList.delete symbol (stream_threads g),
                         stop_flags := AList.delete symbol (stop_flags g)\<rparr>)))"

record status =
  active_symbols :: "string list"
  queue_size :: nat
  flush_alive :: bool

definition get_status :: "registries \<Rightarrow> 'a pyqueue \<Rightarrow> status" where
  "get_status g q =
     \<lparr>active_symbols = map fst (stream_threads g),
      queue_size = length (items q),
      flush_alive = flush_thread_alive g\<rparr>"

text \<open>A sequence of calls on the globals; an exception goes to the caller, the globals stay.\<close>

datatype call = Start bool string | Stop string

fun do_call :: "call \<Rightarrow> registries \<Rightarrow> error option \<times> registries" where
  "do_call (Start db_fails symbol) g = start_stream db_fails symbol g"
| "do_call (Stop symbol) g = stop_stream symbol g"

fun run_calls :: "call list \<Rightarrow> registries \<Rightarrow> registries" where
  "run_calls [] g = g"
| "run_calls (c # cs) g = run_calls cs (snd (do_call c g))"

text \<open>The invariant of the two registries: the same keys, in the same order.\<close>

definition same_keys :: "registries \<Rightarrow> bool" where
  "same_keys g = (map fst (stream_threads g) = map fst (stop_flags g))"

section \<open>Pair analytics (analytics.py)\<close>

text \<open>
  \<open>arr[-n:]\<close> on a sequence: the last \<open>n\<close> elements, all of them when \<open>n\<close> is zero
  (\<open>-0\<close> is \<open>0\<close>) or not less than the length.
\<close>

definition slice_last :: "nat \<Rightarrow> 'a list \<Rightarrow> 'a list" where
  "slice_last n xs = (if n = 0 then xs else drop (length xs - n) xs)"

text \<open>
  \<open>hedge_ratio\<close>. The regression itself is the library's
  (\<open>OLS(y, add_constant(x)).fit().params[1]\<close>): it is the parameter \<open>ols\<close>, a function of
  the two trimmed arrays that returns the slope or raises.
\<close>

definition hedge_ratio :: "(real list \<Rightarrow> real list \<Rightarrow> error + real) \<Rightarrow> real list \<Rightarrow> real list \<Rightarrow> error + real" where
  "hedge_ratio ols y x =
     (let min_len = min (length y) (length x)
      in if min_len = 0 then Inl ValueError
         else ols (slice_last min_len y) (slice_last min_len x))"

text \<open>
  The least-squares slope of \<open>y\<close> on \<open>x\<close> with an intercept, in exact arithmetic, for
  arrays of equal length. When \<open>x\<close> is constant and not zero, \<open>add_constant\<close> adds no
  column and \<open>params[1]\<close> does not exist; when \<open>x\<close> is zero the minimum-norm solution
  has slope zero.
\<close>

definition mean :: "real list \<Rightarrow> real" where
  "mean xs = sum_list xs / real (length xs)"

definition ols_slope :: "real list \<Rightarrow> real list \<Rightarrow> error + real" where
  "ols_slope y x =
     (let sxx = (\<Sum>v \<leftarrow> x. (v - mean x) * (v - mean x));
          sxy = (\<Sum>(v, u) \<leftarrow> zip x y. (v - mean x) * (u - mean y))
      in if sxx = 0 then (if list_all (\<lambda>v. v = 0) x then Inr 0 else Inl IndexError)
         else Inr (sxy / sxx))"

text \<open>
  Values of a float series in pandas: a number, an infinity or \<open>NaN\<close>. The program
  computes in float64. An operation on two numbers returns the exact result rounded, and
  the rounding is not fixed here: it is the parameter \<open>rnd\<close>, which maps the exact
  result to the float64 value (a number, or an infinity on overflow). A zero divisor is
  the case IEEE 754 decides without rounding, and pandas returns its result without
  raising.
\<close>

datatype fl = Num real | PosInf | NegInf | NaN

fun fl_sub :: "(real \<Rightarrow> fl) \<Rightarrow> fl \<Rightarrow> fl \<Rightarrow> fl" where
  "fl_sub rnd (Num a) (Num b) = rnd (a - b)"
| "fl_sub rnd NaN _ = NaN"
| "fl_sub rnd _ NaN = NaN"
| "fl_sub rnd PosInf PosInf = NaN"
| "fl_sub rnd NegInf NegInf = NaN"
| "fl_sub rnd PosInf _ = PosInf"
| "fl_sub rnd NegInf _ = NegInf"
| "fl_sub rnd (Num a) PosInf = NegInf"
| "fl_sub rnd (Num a) NegInf = PosInf"

fun fl_div :: "(real \<Rightarrow> fl) \<Rightarrow> fl \<Rightarrow> fl \<Rightarrow> fl" where
  "fl_div rnd (Num a) (Num b) =
     (if b \<noteq> 0 then rnd (a / b)
      else if a = 0 then NaN else if 0 < a then PosInf else NegInf)"
| "fl_div rnd NaN _ = NaN"
| "fl_div rnd _ NaN = NaN"
| "fl_div rnd (Num a) _ = Num 0"
| "fl_div rnd PosInf (Num b) = (if 0 \<le> b then PosInf else NegInf)"
| "fl_div rnd NegInf (Num b) = (if 0 \<le> b then NegInf else PosInf)"
| "fl_div rnd _ _ = NaN"

text \<open>
  \<open>zscore\<close> is \<open>(series - series.mean()) / series.std()\<close>. What \<open>Series.mean()\<close> and
  \<open>Series.std()\<close> return in float64 depends on the order and the rounding of pandas'
  summation, which is no code of this program: they are the parameters \<open>mean_k\<close> and
  \<open>std_k\<close>. The subtraction and the division are element by element. No branch raises.
\<close>

definition zscore :: "(real \<Rightarrow> fl) \<Rightarrow> (real list \<Rightarrow> fl) \<Rightarrow> (real list \<Rightarrow> fl) \<Rightarrow> real list \<Rightarrow> error + fl list" where
  "zscore rnd mean_k std_k series =
     Inr (map (\<lambda>v. fl_div rnd (fl_sub rnd (Num v) (mean_k series)) (std_k series)) series)"

text \<open>
  The values of \<open>Series.mean()\<close> and \<open>Series.std()\<close> (with \<open>ddof=1\<close>) in exact
  arithmetic: \<open>NaN\<close> for an empty series and for fewer than two values. They are what the
  float64 functions return on series where no operation rounds, such as 5, 5, 5; on
  other series (0.1, 0.1, 0.1) the float64 results differ from them.
\<close>

definition exact_mean :: "real list \<Rightarrow> fl" where
  "exact_mean xs = (if xs = [] then NaN else Num (mean xs))"

definition exact_std :: "real list \<Rightarrow> fl" where
  "exact_std xs =
     (if length xs \<le> 1 then NaN
      else Num (sqrt ((\<Sum>v \<leftarrow> xs. (v - mean xs) * (v - mean xs)) / (real (length xs) - 1))))"






section \<open>Properties of the tick buffer\<close>

lemma offer_not_full:
  "length (items q) < n \<Longrightarrow> maxsize q = int n \<Longrightarrow>
     offer t q = Inr (q\<lparr>items := items q @ [t]\<rparr>)"
  by (simp add: offer_def put_nowait_def)

lemma offer_full:
  "length (items q) = n \<Longrightarrow> 0 < n \<Longrightarrow> maxsize q = int n \<Longrightarrow>
     offer t q = Inr (q\<lparr>items := tl (items q) @ [t]\<rparr>)"
  by (cases "items q") (simp_all add: offer_def put_nowait_def get_nowait_def)

lemma offer_all_drop:
  "0 < n \<Longrightarrow> maxsize q = int n \<Longrightarrow> length (items q) \<le> n \<Longrightarrow>
     offer_all ts q =
       Inr (q\<lparr>items := drop (length (items q) + length ts - n) (items q @ ts)\<rparr>)"
proof (induction ts arbitrary: q)
  case Nil
  then show ?case by simp
next
  case (Cons t ts)
  show ?case
  proof (cases "length (items q) < n")
    case True
    let ?q' = "q\<lparr>items := items q @ [t]\<rparr>"
    have step: "offer t q = Inr ?q'"
      using True Cons.prems(2) by (rule offer_not_full)
    have "offer_all ts ?q' =
            Inr (?q'\<lparr>items := drop (length (items ?q') + length ts - n) (items ?q' @ ts)\<rparr>)"
      using Cons.prems True by (intro Cons.IH) simp_all
    then show ?thesis using step by simp
  next
    case False
    with Cons.prems have full: "length (items q) = n" by simp
    let ?q' = "q\<lparr>items := tl (items q) @ [t]\<rparr>"
    have step: "offer t q = Inr ?q'"
      using full Cons.prems(1,2) by (rule offer_full)
    have len: "length (items ?q') = n"
      using full Cons.prems(1) by simp
    have ne: "items q \<noteq> []"
      using full Cons.prems(1) by auto
    have "offer_all ts ?q' =
            Inr (?q'\<lparr>items := drop (length (items ?q') + length ts - n) (items ?q' @ ts)\<rparr>)"
      using Cons.prems len by (intro Cons.IH) simp_all
    moreover have "drop (length ts) (tl (items q) @ t # ts) =
                   drop (Suc (length ts)) (items q @ t # ts)"
      using ne by (cases "items q") simp_all
    ultimately show ?thesis using step len full by simp
  qed
qed

text \<open>
  C4. A buffer of capacity \<open>N > 0\<close>, initially empty, is offered \<open>N + k\<close> ticks in
  order (\<open>k > 0\<close>) with no consumer running: no offer raises, the buffer then holds
  exactly the last \<open>N\<close> ticks in their input order, and the ticks that are gone are the
  \<open>k\<close> earliest.
\<close>

theorem offer_all_keeps_last_N:
  assumes "0 < N" and "0 < k" and "length inp = N + k"
  shows "\<exists>q. offer_all inp (new_queue (int N)) = Inr q
           \<and> items q = drop k inp
           \<and> length (items q) = N
           \<and> inp = take k inp @ items q"
proof -
  have "offer_all inp (new_queue (int N)) =
          Inr ((new_queue (int N))\<lparr>items := drop (0 + length inp - N) ([] @ inp)\<rparr>)"
    using offer_all_drop [of N "new_queue (int N)" inp] assms(1)
    by (simp add: new_queue_def)
  then show ?thesis using assms by simp
qed

theorem offer_all_keeps_last_N_witness:
  "\<exists>q. offer_all [10, 11, 12, 13, 14 :: nat] (new_queue (int 2)) = Inr q
        \<and> items q = [13, 14]"
proof -
  have "\<exists>q. offer_all [10, 11, 12, 13, 14 :: nat] (new_queue (int 2)) = Inr q
           \<and> items q = drop 3 [10, 11, 12, 13, 14]
           \<and> length (items q) = 2
           \<and> [10, 11, 12, 13, 14] = take 3 [10, 11, 12, 13, 14] @ items q"
    by (rule offer_all_keeps_last_N) simp_all
  then obtain q where "offer_all [10, 11, 12, 13, 14 :: nat] (new_queue (int 2)) = Inr q"
     and "items q = drop 3 [10, 11, 12, 13, 14]" by blast
  then show ?thesis by simp
qed

section \<open>Properties of the reconnection loop\<close>

lemma backoff_cap:
  assumes "1 \<le> (b::int)"
  shows "min (min (b * 2) 30 * 2 ^ (j + 1)) 30 = min (b * 2 ^ (Suc j + 1)) 30"
proof -
  define P where "P = (2::int) ^ (j + 1)"
  have P1: "1 \<le> P" unfolding P_def by (rule one_le_power) simp
  have e: "b * 2 ^ (Suc j + 1) = (b * 2) * P" unfolding P_def by simp
  show ?thesis
  proof (cases "b * 2 \<le> 30")
    case True
    then have "min (b * 2) 30 = b * 2" by (rule min_absorb1)
    then show ?thesis unfolding e P_def [symmetric] by (simp only:)
  next
    case False
    then have m: "min (b * 2) 30 = 30" by (intro min_absorb2) simp
    have "(b * 2) * 1 \<le> (b * 2) * P" using P1 assms by (intro mult_left_mono) simp_all
    then have "30 \<le> (b * 2) * P" using False by linarith
    then have r: "min ((b * 2) * P) 30 = 30" by (rule min_absorb2)
    have "30 * 1 \<le> 30 * P" using P1 by (intro mult_left_mono) simp_all
    then have "30 \<le> 30 * P" by simp
    then have l: "min (30 * P) 30 = 30" by (rule min_absorb2)
    show ?thesis unfolding e P_def [symmetric] m l r by (rule refl)
  qed
qed

lemma socket_loop_step:
  "socket_loop b ((False, oc) # env) = min (b * 2) 30 # socket_loop (min (b * 2) 30) env"
  by (cases oc) (simp_all add: Let_def)

lemma socket_loop_no_stop:
  "\<forall>e \<in> set env. \<not> fst e \<Longrightarrow> 1 \<le> b \<Longrightarrow>
     length (socket_loop b env) = length env
     \<and> (\<forall>i < length env. socket_loop b env ! i = min (b * 2 ^ (i + 1)) 30)"
proof (induction env arbitrary: b)
  case Nil
  then show ?case by simp
next
  case (Cons e env)
  obtain stop outcome where e: "e = (stop, outcome)" by (cases e)
  let ?b' = "min (b * 2) 30"
  have ns: "\<not> stop" using Cons.prems(1) e by simp
  have b': "1 \<le> ?b'" using Cons.prems(2) by simp
  have unfold: "socket_loop b (e # env) = ?b' # socket_loop ?b' env"
    using ns e by (cases outcome) (simp_all add: Let_def)
  have IH: "length (socket_loop ?b' env) = length env
     \<and> (\<forall>i < length env. socket_loop ?b' env ! i = min (?b' * 2 ^ (i + 1)) 30)"
    using Cons.prems(1) b' by (intro Cons.IH) simp_all
  have nth: "socket_loop b (e # env) ! i = min (b * 2 ^ (i + 1)) 30"
    if "i < length (e # env)" for i
  proof (cases i)
    case 0
    then show ?thesis using unfold by simp
  next
    case (Suc j)
    then have "j < length env" using that by simp
    then have "socket_loop ?b' env ! j = min (?b' * 2 ^ (j + 1)) 30"
      using IH by blast
    moreover have "min (?b' * 2 ^ (j + 1)) 30 = min (b * 2 ^ (Suc j + 1)) (30::int)"
      using Cons.prems(2) by (rule backoff_cap)
    ultimately show ?thesis using unfold Suc by simp
  qed
  show ?case using unfold IH nth by simp
qed

text \<open>
  C8, as the code has it. While the stop flag is not set, every connection attempt,
  failed or cleanly closed, is followed by a wait, there are as many waits as attempts
  (no bound on retries), and the wait after attempt number \<open>i\<close> (counted from 0) is
  \<open>min (2 ^ (i + 1)) 30\<close>: 2, 4, 8, 16, 30, 30, ...
\<close>

theorem start_socket_waits:
  assumes "\<forall>e \<in> set env. \<not> fst e"
  shows "length (start_socket env) = length env
         \<and> (\<forall>i < length env. start_socket env ! i = min (2 ^ (i + 1)) 30)"
  using socket_loop_no_stop [OF assms, of 1] by (simp add: start_socket_def)

theorem start_socket_waits_witness:
  "start_socket [(False, Failed), (False, Closed), (False, Failed), (False, Failed),
                 (False, Closed), (False, Failed)] = [2, 4, 8, 16, 30, 30]"
proof -
  let ?env = "[(False, Failed), (False, Closed), (False, Failed), (False, Failed),
               (False, Closed), (False, Failed)]"
  have h: "\<forall>e \<in> set ?env. \<not> fst e" by simp
  have "length (start_socket ?env) = length ?env
         \<and> (\<forall>i < length ?env. start_socket ?env ! i = min (2 ^ (i + 1)) 30)"
    using h by (rule start_socket_waits)
  then have len: "length (start_socket ?env) = length ?env"
    and nth: "\<And>i. i < length ?env \<Longrightarrow> start_socket ?env ! i = min (2 ^ (i + 1)) 30"
    by blast+
  have "start_socket ?env = map (\<lambda>i. min (2 ^ (i + 1)) 30) [0..<length ?env]"
    by (rule nth_equalityI)
       (simp_all only: len nth length_map length_upt nth_map_upt minus_nat.diff_0 add_0)
  also have "\<dots> = [2, 4, 8, 16, 30, 30]"
    by (simp add: upt_rec)
  finally show ?thesis .
qed

text \<open>
  C8, as the specification states it, fails on the code: the first wait is 2
  time-units, not 1, because \<open>backoff\<close> is doubled before the first sleep.
\<close>

theorem start_socket_first_wait_counterexample:
  "start_socket [(False, Failed), (False, Failed)] = [2, 4]
   \<and> hd (start_socket [(False, Failed), (False, Failed)]) \<noteq> 1"
  by (simp add: start_socket_def socket_loop_step del: socket_loop.simps(2))

section \<open>Properties of the bar store\<close>

lemma bar_key_updated:
  "bar_key (r\<lparr>b_open := o1, b_high := h1, b_low := l1, b_close := c1, b_volume := v1\<rparr>) = bar_key r"
  by (simp add: bar_key_def)

lemma updated_row_is_bar:
  "bar_key r = bar_key b \<Longrightarrow>
     r\<lparr>b_open := b_open b, b_high := b_high b, b_low := b_low b,
       b_close := b_close b, b_volume := b_volume b\<rparr> = (b::bar)"
  by (cases r, cases b) (simp add: bar_key_def)

lemma keys_upsert_bar:
  "map bar_key (upsert_bar b rows) =
     (if bar_key b \<in> set (map bar_key rows) then map bar_key rows
      else map bar_key rows @ [bar_key b])"
  by (induction rows) (auto simp: bar_key_updated)

lemma unique_keys_upsert_bar:
  "unique_keys rows \<Longrightarrow> unique_keys (upsert_bar b rows)"
  by (simp add: unique_keys_def keys_upsert_bar)

lemma filter_key_absent:
  "k \<notin> set (map bar_key rows) \<Longrightarrow> filter (\<lambda>r. bar_key r = k) rows = []"
  by (induction rows) auto

lemma filter_key_upsert_bar:
  "unique_keys rows \<Longrightarrow>
     filter (\<lambda>r. bar_key r = bar_key b) (upsert_bar b rows) = [b]"
proof (induction rows)
  case Nil
  then show ?case by simp
next
  case (Cons r rows)
  show ?case
  proof (cases "bar_key r = bar_key b")
    case True
    then have "bar_key b \<notin> set (map bar_key rows)"
      using Cons.prems by (simp add: unique_keys_def)
    then have "filter (\<lambda>r. bar_key r = bar_key b) rows = []"
      by (rule filter_key_absent)
    then show ?thesis using True by (simp add: updated_row_is_bar bar_key_updated)
  next
    case False
    then show ?thesis using Cons by (simp add: unique_keys_def)
  qed
qed

lemma filter_other_upsert_bar:
  "filter (\<lambda>r. bar_key r \<noteq> bar_key b) (upsert_bar b rows) =
   filter (\<lambda>r. bar_key r \<noteq> bar_key b) rows"
  by (induction rows) (auto simp: bar_key_updated)

text \<open>
  C6. On a bar table that satisfies its \<open>UNIQUE(symbol, time)\<close> constraint, upserting
  a bar and then a second bar with the same key succeeds both times and leaves exactly
  one row with that key, equal to the second bar: its five values are those of the second
  write, nothing of the first is merged in. The table keeps its constraint and the rows of
  all other keys are as before.
\<close>

theorem upsert_twice_last_writer_wins:
  assumes "unique_keys (bar_tables d tbl)" and "bar_key b1 = bar_key b2"
  shows "\<exists>d1 d2. insert_or_replace_bars False tbl [b1] d = Inr d1
           \<and> insert_or_replace_bars False tbl [b2] d1 = Inr d2
           \<and> filter (\<lambda>r. bar_key r = bar_key b2) (bar_tables d2 tbl) = [b2]
           \<and> unique_keys (bar_tables d2 tbl)
           \<and> filter (\<lambda>r. bar_key r \<noteq> bar_key b2) (bar_tables d2 tbl) =
              filter (\<lambda>r. bar_key r \<noteq> bar_key b2) (bar_tables d tbl)"
proof -
  let ?rows1 = "upsert_bar b1 (bar_tables d tbl)"
  let ?d1 = "d\<lparr>bar_tables := (bar_tables d)(tbl := ?rows1)\<rparr>"
  let ?d2 = "?d1\<lparr>bar_tables := (bar_tables ?d1)(tbl := upsert_bar b2 ?rows1)\<rparr>"
  have u1: "unique_keys ?rows1" using assms(1) by (rule unique_keys_upsert_bar)
  have s1: "insert_or_replace_bars False tbl [b1] d = Inr ?d1"
    by (simp add: insert_or_replace_bars_def)
  have s2: "insert_or_replace_bars False tbl [b2] ?d1 = Inr ?d2"
    by (simp add: insert_or_replace_bars_def)
  have t: "bar_tables ?d2 tbl = upsert_bar b2 ?rows1" by simp
  have f: "filter (\<lambda>r. bar_key r = bar_key b2) (bar_tables ?d2 tbl) = [b2]"
    unfolding t using u1 by (rule filter_key_upsert_bar)
  have u2: "unique_keys (bar_tables ?d2 tbl)"
    unfolding t using u1 by (rule unique_keys_upsert_bar)
  have "filter (\<lambda>r. bar_key r \<noteq> bar_key b2) (upsert_bar b2 ?rows1) =
        filter (\<lambda>r. bar_key r \<noteq> bar_key b2) ?rows1"
    by (rule filter_other_upsert_bar)
  also have "\<dots> = filter (\<lambda>r. bar_key r \<noteq> bar_key b2) (bar_tables d tbl)"
    using filter_other_upsert_bar [of b1 "bar_tables d tbl"] assms(2) by simp
  finally have o: "filter (\<lambda>r. bar_key r \<noteq> bar_key b2) (bar_tables ?d2 tbl) =
              filter (\<lambda>r. bar_key r \<noteq> bar_key b2) (bar_tables d tbl)"
    unfolding t .
  show ?thesis using s1 s2 f u2 o by blast
qed

theorem upsert_twice_last_writer_wins_witness:
  "\<exists>d1 d2.
      insert_or_replace_bars False ''bars_1s''
        [\<lparr>b_time = ''2024-01-01T10:00:00+00:00'', b_symbol = ''btcusdt'', b_open = 100,
          b_high = 101, b_low = 99, b_close = 99, b_volume = 3\<rparr>]
        (empty_db\<lparr>bar_tables := (\<lambda>tbl. [\<lparr>b_time = ''2024-01-01T09:59:59+00:00'',
            b_symbol = ''btcusdt'', b_open = 1, b_high = 2, b_low = 1, b_close = 2,
            b_volume = 5\<rparr>])\<rparr>) = Inr d1
    \<and> insert_or_replace_bars False ''bars_1s''
        [\<lparr>b_time = ''2024-01-01T10:00:00+00:00'', b_symbol = ''btcusdt'', b_open = 98,
          b_high = 98, b_low = 97, b_close = 97, b_volume = 1\<rparr>] d1 = Inr d2
    \<and> bar_tables d2 ''bars_1s'' =
        [\<lparr>b_time = ''2024-01-01T09:59:59+00:00'', b_symbol = ''btcusdt'', b_open = 1,
          b_high = 2, b_low = 1, b_close = 2, b_volume = 5\<rparr>,
         \<lparr>b_time = ''2024-01-01T10:00:00+00:00'', b_symbol = ''btcusdt'', b_open = 98,
          b_high = 98, b_low = 97, b_close = 97, b_volume = 1\<rparr>]"
proof -
  let ?old = "\<lparr>b_time = ''2024-01-01T09:59:59+00:00'', b_symbol = ''btcusdt'', b_open = 1,
               b_high = 2, b_low = 1, b_close = 2, b_volume = 5\<rparr>"
  let ?b1 = "\<lparr>b_time = ''2024-01-01T10:00:00+00:00'', b_symbol = ''btcusdt'', b_open = 100,
              b_high = 101, b_low = 99, b_close = 99, b_volume = 3\<rparr>"
  let ?b2 = "\<lparr>b_time = ''2024-01-01T10:00:00+00:00'', b_symbol = ''btcusdt'', b_open = 98,
              b_high = 98, b_low = 97, b_close = 97, b_volume = 1\<rparr>"
  let ?d = "empty_db\<lparr>bar_tables := (\<lambda>tbl. [?old])\<rparr>"
  have u: "unique_keys (bar_tables ?d ''bars_1s'')"
    by (simp add: unique_keys_def)
  have k: "bar_key ?b1 = bar_key ?b2"
    by (simp add: bar_key_def)
  obtain d1 d2 where
        s1: "insert_or_replace_bars False ''bars_1s'' [?b1] ?d = Inr d1"
    and s2: "insert_or_replace_bars False ''bars_1s'' [?b2] d1 = Inr d2"
    and f: "filter (\<lambda>r. bar_key r = bar_key ?b2) (bar_tables d2 ''bars_1s'') = [?b2]"
    using upsert_twice_last_writer_wins [OF u k] by blast
  have d1: "d1 = ?d\<lparr>bar_tables := (bar_tables ?d)(''bars_1s'' := [?old, ?b1])\<rparr>"
    using s1 by (simp add: insert_or_replace_bars_def bar_key_def)
  have "bar_tables d2 ''bars_1s'' = [?old, ?b2]"
    using s2 unfolding d1 by (auto simp add: insert_or_replace_bars_def bar_key_def)
  then show ?thesis using s1 s2 by blast
qed

section \<open>Properties of the aggregation\<close>

lemma sum_list_insort_key:
  "sum_list (map g (insort_key f x xs)) = g x + sum_list (map g xs)"
  for g :: "'a \<Rightarrow> real"
  by (induction xs) simp_all

lemma sum_list_sort_key:
  "sum_list (map g (sort_key f xs)) = sum_list (map g (xs :: 'a list))"
  for g :: "'a \<Rightarrow> real"
  by (induction xs) (simp_all add: sum_list_insort_key)

lemma sorted_hd_least:
  "sorted (map f ts) \<Longrightarrow> t \<in> set ts \<Longrightarrow> f (hd ts) \<le> f t"
  by (cases ts) auto

lemma sorted_last_greatest:
  "sorted (map f ts) \<Longrightarrow> t \<in> set ts \<Longrightarrow> f t \<le> f (last ts)"
  by (induction ts) auto

lemma set_bucket:
  "set (bucket w batch s b) =
     {t \<in> set batch. t_symbol t = s \<and> window_start w (t_time t) = b}"
  by (auto simp: bucket_def)

lemma sorted_bucket: "sorted (map t_time (bucket w batch s b))"
  by (simp add: bucket_def)

lemma volume_bucket:
  "sum_list (map qty (bucket w batch s b)) =
   sum_list (map qty (filter (\<lambda>t. t_symbol t = s \<and> window_start w (t_time t) = b) batch))"
  by (simp add: bucket_def sum_list_sort_key)

lemma bucket_nonempty:
  assumes "b \<in> set (group_windows w batch s)"
  shows "bucket w batch s b \<noteq> []"
proof -
  obtain t where "t \<in> set batch" "t_symbol t = s" "window_start w (t_time t) = b"
    using assms by (auto simp: group_windows_def)
  then have "t \<in> set (bucket w batch s b)" by (simp add: set_bucket)
  then show ?thesis by auto
qed

lemma bar_of_batchE:
  assumes "bar \<in> set (bars_of_batch w batch)"
  obtains s b where "b \<in> set (group_windows w batch s)"
    and "bar = make_bar s b (bucket w batch s b)"
  using assms by (auto simp: bars_of_batch_def)

lemma make_bar_bounds:
  assumes "ts \<noteq> []"
  shows "b_low (make_bar s b ts) \<le> min (b_open (make_bar s b ts)) (b_close (make_bar s b ts))"
    and "max (b_open (make_bar s b ts)) (b_close (make_bar s b ts)) \<le> b_high (make_bar s b ts)"
proof -
  have h: "price (hd ts) \<in> set (map price ts)" and l: "price (last ts) \<in> set (map price ts)"
    using assms by simp_all
  have fin: "finite (set (map price ts))" by simp
  show "b_low (make_bar s b ts) \<le> min (b_open (make_bar s b ts)) (b_close (make_bar s b ts))"
    using Min_le [OF fin h] Min_le [OF fin l] by (simp add: make_bar_def)
  show "max (b_open (make_bar s b ts)) (b_close (make_bar s b ts)) \<le> b_high (make_bar s b ts)"
    using Max_ge [OF fin h] Max_ge [OF fin l] by (simp add: make_bar_def)
qed


lemma bar_for_every_tick:
  "t \<in> set batch \<Longrightarrow>
     make_bar (t_symbol t) (window_start w (t_time t))
       (bucket w batch (t_symbol t) (window_start w (t_time t))) \<in> set (bars_of_batch w batch)"
  by (auto simp: bars_of_batch_def group_windows_def)

text \<open>
  C5. Every bar that the aggregation computes from a batch, for a window width \<open>w\<close>,
  is the bar of a non-empty bucket: the ticks of the batch with the bar's symbol whose
  timestamp falls into the bar's window, ordered by time. Its low is at most its open and
  its close, which are at most its high; its open is the price of the first tick of the
  bucket, which no tick of the bucket precedes in time; its close is the price of the
  last, which no tick of the bucket follows; its volume is the sum of the quantities of
  the bucket, and is not negative when none of them is.
\<close>

theorem bar_of_bucket:
  assumes "bar \<in> set (bars_of_batch w batch)"
  shows "\<exists>s b. let ts = bucket w batch s b in
           ts \<noteq> []
         \<and> set ts = {t \<in> set batch. t_symbol t = s \<and> window_start w (t_time t) = b}
         \<and> b_symbol bar = s \<and> b_time bar = isoformat b
         \<and> b_low bar \<le> min (b_open bar) (b_close bar)
         \<and> max (b_open bar) (b_close bar) \<le> b_high bar
         \<and> b_open bar = price (hd ts) \<and> (\<forall>t \<in> set ts. t_time (hd ts) \<le> t_time t)
         \<and> b_close bar = price (last ts) \<and> (\<forall>t \<in> set ts. t_time t \<le> t_time (last ts))
         \<and> b_volume bar =
             sum_list (map qty (filter (\<lambda>t. t_symbol t = s \<and> window_start w (t_time t) = b) batch))
         \<and> ((\<forall>t \<in> set ts. 0 \<le> qty t) \<longrightarrow> 0 \<le> b_volume bar)"
proof -
  obtain s b where win: "b \<in> set (group_windows w batch s)"
    and bar: "bar = make_bar s b (bucket w batch s b)"
    using assms by (rule bar_of_batchE)
  define ts where "ts = bucket w batch s b"
  have ne: "ts \<noteq> []" unfolding ts_def using win by (rule bucket_nonempty)
  have st: "set ts = {t \<in> set batch. t_symbol t = s \<and> window_start w (t_time t) = b}"
    unfolding ts_def by (rule set_bucket)
  have srt: "sorted (map t_time ts)" unfolding ts_def by (rule sorted_bucket)
  have bar': "bar = make_bar s b ts" using bar by (simp add: ts_def)
  have lo: "b_low bar \<le> min (b_open bar) (b_close bar)"
    and hi: "max (b_open bar) (b_close bar) \<le> b_high bar"
    unfolding bar' using ne by (rule make_bar_bounds)+
  have first: "\<forall>t \<in> set ts. t_time (hd ts) \<le> t_time t"
    using srt by (auto intro: sorted_hd_least)
  have final: "\<forall>t \<in> set ts. t_time t \<le> t_time (last ts)"
    using srt by (auto intro: sorted_last_greatest)
  have vol: "b_volume bar =
      sum_list (map qty (filter (\<lambda>t. t_symbol t = s \<and> window_start w (t_time t) = b) batch))"
    unfolding bar' ts_def by (simp add: make_bar_def volume_bucket)
  have vol': "b_volume bar = sum_list (map qty ts)"
    unfolding bar' by (simp add: make_bar_def)
  have nonneg: "(\<forall>t \<in> set ts. 0 \<le> qty t) \<longrightarrow> 0 \<le> b_volume bar"
    unfolding vol' by (auto intro!: sum_list_nonneg)
  have fields: "b_symbol bar = s" "b_time bar = isoformat b"
    "b_open bar = price (hd ts)" "b_close bar = price (last ts)"
    unfolding bar' by (simp_all add: make_bar_def)
  have "let ts = bucket w batch s b in
           ts \<noteq> []
         \<and> set ts = {t \<in> set batch. t_symbol t = s \<and> window_start w (t_time t) = b}
         \<and> b_symbol bar = s \<and> b_time bar = isoformat b
         \<and> b_low bar \<le> min (b_open bar) (b_close bar)
         \<and> max (b_open bar) (b_close bar) \<le> b_high bar
         \<and> b_open bar = price (hd ts) \<and> (\<forall>t \<in> set ts. t_time (hd ts) \<le> t_time t)
         \<and> b_close bar = price (last ts) \<and> (\<forall>t \<in> set ts. t_time t \<le> t_time (last ts))
         \<and> b_volume bar =
             sum_list (map qty (filter (\<lambda>t. t_symbol t = s \<and> window_start w (t_time t) = b) batch))
         \<and> ((\<forall>t \<in> set ts. 0 \<le> qty t) \<longrightarrow> 0 \<le> b_volume bar)"
    unfolding Let_def ts_def [symmetric]
    using ne st lo hi first final vol nonneg fields by (intro conjI)
  then show ?thesis by blast
qed

lemma iso_window: "isoformat 1704103200000 = ''2024-01-01T10:00:00+00:00''"
  by code_simp

lemma bars_of_scenario:
  "bars_of_batch 1000
     [\<lparr>t_time = 1704103200400, t_symbol = ''x'', price = 101, qty = 2\<rparr>,
      \<lparr>t_time = 1704103200100, t_symbol = ''x'', price = 100, qty = 1\<rparr>,
      \<lparr>t_time = 1704103200900, t_symbol = ''x'', price = 99, qty = 4\<rparr>]
   = [\<lparr>b_time = ''2024-01-01T10:00:00+00:00'', b_symbol = ''x'', b_open = 100, b_high = 101,
       b_low = 99, b_close = 99, b_volume = 7\<rparr>]"
  by (simp add: bars_of_batch_def group_windows_def bucket_def make_bar_def window_start_def
        iso_window)


theorem bar_of_bucket_witness:
  "bars_of_batch 1000
     [\<lparr>t_time = 1704103200400, t_symbol = ''x'', price = 101, qty = 2\<rparr>,
      \<lparr>t_time = 1704103200100, t_symbol = ''x'', price = 100, qty = 1\<rparr>,
      \<lparr>t_time = 1704103200900, t_symbol = ''x'', price = 99, qty = 4\<rparr>]
   = [\<lparr>b_time = ''2024-01-01T10:00:00+00:00'', b_symbol = ''x'', b_open = 100, b_high = 101,
       b_low = 99, b_close = 99, b_volume = 7\<rparr>]
   \<and> (\<exists>s b. let ts = bucket 1000
                [\<lparr>t_time = 1704103200400, t_symbol = ''x'', price = 101, qty = 2\<rparr>,
                 \<lparr>t_time = 1704103200100, t_symbol = ''x'', price = 100, qty = 1\<rparr>,
                 \<lparr>t_time = 1704103200900, t_symbol = ''x'', price = 99, qty = 4\<rparr>] s b
          in ts \<noteq> [] \<and> s = ''x'' \<and> ''2024-01-01T10:00:00+00:00'' = isoformat b
             \<and> price (hd ts) = 100 \<and> price (last ts) = 99)"
proof -
  let ?batch = "[\<lparr>t_time = 1704103200400, t_symbol = ''x'', price = 101, qty = 2\<rparr>,
                 \<lparr>t_time = 1704103200100, t_symbol = ''x'', price = 100, qty = 1\<rparr>,
                 \<lparr>t_time = 1704103200900, t_symbol = ''x'', price = 99, qty = 4\<rparr>]"
  let ?bar = "\<lparr>b_time = ''2024-01-01T10:00:00+00:00'', b_symbol = ''x'', b_open = 100,
               b_high = 101, b_low = 99, b_close = 99, b_volume = 7\<rparr>"
  have all: "bars_of_batch 1000 ?batch = [?bar]"
    by (rule bars_of_scenario)
  then have mem: "?bar \<in> set (bars_of_batch 1000 ?batch)"
    by simp
  obtain s b where *:
    "let ts = bucket 1000 ?batch s b in
           ts \<noteq> []
         \<and> set ts = {t \<in> set ?batch. t_symbol t = s \<and> window_start 1000 (t_time t) = b}
         \<and> b_symbol ?bar = s \<and> b_time ?bar = isoformat b
         \<and> b_low ?bar \<le> min (b_open ?bar) (b_close ?bar)
         \<and> max (b_open ?bar) (b_close ?bar) \<le> b_high ?bar
         \<and> b_open ?bar = price (hd ts) \<and> (\<forall>t \<in> set ts. t_time (hd ts) \<le> t_time t)
         \<and> b_close ?bar = price (last ts) \<and> (\<forall>t \<in> set ts. t_time t \<le> t_time (last ts))
         \<and> b_volume ?bar =
             sum_list (map qty (filter (\<lambda>t. t_symbol t = s \<and> window_start 1000 (t_time t) = b) ?batch))
         \<and> ((\<forall>t \<in> set ts. 0 \<le> qty t) \<longrightarrow> 0 \<le> b_volume ?bar)"
    using bar_of_bucket [OF mem] by blast
  define ts where "ts = bucket 1000 ?batch s b"
  have ne: "ts \<noteq> []" and sy: "b_symbol ?bar = s" and ti: "b_time ?bar = isoformat b"
    and op: "b_open ?bar = price (hd ts)" and cl: "b_close ?bar = price (last ts)"
    using * unfolding Let_def ts_def [symmetric] by blast+
  have "ts \<noteq> [] \<and> s = ''x'' \<and> ''2024-01-01T10:00:00+00:00'' = isoformat b
        \<and> price (hd ts) = 100 \<and> price (last ts) = 99"
    using ne sy ti op cl by simp
  then have "\<exists>s b. let ts = bucket 1000 ?batch s b
          in ts \<noteq> [] \<and> s = ''x'' \<and> ''2024-01-01T10:00:00+00:00'' = isoformat b
             \<and> price (hd ts) = 100 \<and> price (last ts) = 99"
    unfolding Let_def ts_def by blast
  then show ?thesis using all by (rule conjI [rotated])
qed

section \<open>Properties of the connector registries\<close>

lemma same_keys_start: "same_keys g \<Longrightarrow> same_keys (snd (start_stream f s g))"
  by (simp add: same_keys_def start_stream_def Let_def update_keys del: set_map)

lemma same_keys_stop: "same_keys g \<Longrightarrow> same_keys (snd (stop_stream s g))"
  by (simp add: same_keys_def stop_stream_def delete_keys split: option.splits del: set_map)

lemma same_keys_do_call: "same_keys g \<Longrightarrow> same_keys (snd (do_call c g))"
  by (cases c) (simp_all add: same_keys_start same_keys_stop)

lemma same_keys_run_calls: "same_keys g \<Longrightarrow> same_keys (run_calls cs g)"
  by (induction cs arbitrary: g) (simp_all add: same_keys_do_call)

lemma same_keys_no_streams: "same_keys no_streams"
  by (simp add: same_keys_def no_streams_def)

lemma stop_no_error: 
  assumes sk: "same_keys g"
  shows "fst (stop_stream s g) = None"
proof (cases "s \<in> set (map fst (stream_threads g))")
  case False
  then show ?thesis by (simp add: stop_stream_def)
next
  case True
  then have "s \<in> set (map fst (stop_flags g))" using sk by (simp only: same_keys_def)
  then have "map_of (stop_flags g) s \<noteq> None"
    by (simp add: map_of_eq_None_iff)
  then show ?thesis using True by (auto simp: stop_stream_def)
qed

text \<open>
  C10. After any sequence of \<open>start_stream\<close> and \<open>stop_stream\<close> calls from the
  initial globals, the two registries have the same keys (even in the same order),
  \<open>get_status\<close> reports exactly these as the active symbols, starting an active symbol
  and stopping a symbol that is not active return without an error and leave the globals
  as they are, and no \<open>stop_stream\<close> raises.
\<close>

theorem registries_same_keys:
  fixes q :: "'a pyqueue"
  shows "(let g = run_calls cs no_streams; active = set (map fst (stream_threads g)) in
            map fst (stream_threads g) = map fst (stop_flags g)
          \<and> active = set (map fst (stop_flags g))
          \<and> set (active_symbols (get_status g q)) = active
          \<and> (\<forall>s db_fails. s \<in> active \<longrightarrow> start_stream db_fails s g = (None, g))
          \<and> (\<forall>s. s \<notin> active \<longrightarrow> stop_stream s g = (None, g))
          \<and> (\<forall>s. fst (stop_stream s g) = None))"
proof -
  define g where "g = run_calls cs no_streams"
  have sk: "same_keys g"
    unfolding g_def using same_keys_no_streams by (rule same_keys_run_calls)
  then have l: "map fst (stream_threads g) = map fst (stop_flags g)"
    by (simp only: same_keys_def)
  have st: "set (active_symbols (get_status g q)) = set (map fst (stream_threads g))"
    by (simp add: get_status_def)
  have a: "start_stream db_fails s g = (None, g)" if "s \<in> set (map fst (stream_threads g))" for s db_fails
    using that by (simp add: start_stream_def)
  have b: "stop_stream s g = (None, g)" if "s \<notin> set (map fst (stream_threads g))" for s
    using that by (simp add: stop_stream_def)
  have c: "fst (stop_stream s g) = None" for s
    using sk by (rule stop_no_error)
  show ?thesis
    unfolding Let_def g_def [symmetric] using l st a b c by (metis)
qed


theorem registries_same_keys_witness:
  "map fst (stream_threads (run_calls
      [Start False ''btcusdt'', Start False ''ethusdt'', Start False ''btcusdt'',
       Stop ''bnbusdt'', Stop ''btcusdt'', Start True ''bnbusdt''] no_streams)) = [''ethusdt'']
   \<and> map fst (stop_flags (run_calls
      [Start False ''btcusdt'', Start False ''ethusdt'', Start False ''btcusdt'',
       Stop ''bnbusdt'', Stop ''btcusdt'', Start True ''bnbusdt''] no_streams)) = [''ethusdt'']
   \<and> start_stream True ''ethusdt'' (run_calls
      [Start False ''btcusdt'', Start False ''ethusdt'', Start False ''btcusdt'',
       Stop ''bnbusdt'', Stop ''btcusdt'', Start True ''bnbusdt''] no_streams)
      = (None, run_calls
      [Start False ''btcusdt'', Start False ''ethusdt'', Start False ''btcusdt'',
       Stop ''bnbusdt'', Stop ''btcusdt'', Start True ''bnbusdt''] no_streams)
   \<and> stop_stream ''btcusdt'' (run_calls
      [Start False ''btcusdt'', Start False ''ethusdt'', Start False ''btcusdt'',
       Stop ''bnbusdt'', Stop ''btcusdt'', Start True ''bnbusdt''] no_streams)
      = (None, run_calls
      [Start False ''btcusdt'', Start False ''ethusdt'', Start False ''btcusdt'',
       Stop ''bnbusdt'', Stop ''btcusdt'', Start True ''bnbusdt''] no_streams)"
proof -
  let ?g = "run_calls
      [Start False ''btcusdt'', Start False ''ethusdt'', Start False ''btcusdt'',
       Stop ''bnbusdt'', Stop ''btcusdt'', Start True ''bnbusdt''] no_streams"
  have keys: "map fst (stream_threads ?g) = [''ethusdt'']"
    by (simp add: start_stream_def stop_stream_def no_streams_def Let_def)
  note T = registries_same_keys [of "[Start False ''btcusdt'', Start False ''ethusdt'',
       Start False ''btcusdt'', Stop ''bnbusdt'', Stop ''btcusdt'', Start True ''bnbusdt'']"
       "new_queue 0 :: nat pyqueue", unfolded Let_def]
  have same: "map fst (stream_threads ?g) = map fst (stop_flags ?g)"
    using T by (rule conjunct1)
  have noop1: "\<forall>s db_fails. s \<in> set (map fst (stream_threads ?g))
                 \<longrightarrow> start_stream db_fails s ?g = (None, ?g)"
    using T by blast
  have noop2: "\<forall>s. s \<notin> set (map fst (stream_threads ?g)) \<longrightarrow> stop_stream s ?g = (None, ?g)"
    using T by blast
  have "start_stream True ''ethusdt'' ?g = (None, ?g)"
    using noop1 unfolding keys by simp
  moreover have "stop_stream ''btcusdt'' ?g = (None, ?g)"
    using noop2 unfolding keys by simp
  moreover have "map fst (stop_flags ?g) = [''ethusdt'']"
    using same keys by simp
  ultimately show ?thesis using keys by blast
qed

section \<open>Properties of the pair analytics\<close>

lemma hedge_ratio_equal_lengths:
  assumes "length y' = length x'" and "y' \<noteq> []"
  shows "hedge_ratio ols y' x' = ols y' x'"
proof -
  have "x' \<noteq> []" using assms by auto
  then show ?thesis using assms by (simp add: hedge_ratio_def slice_last_def Let_def)
qed

lemma hedge_ratio_prefix_y:
  assumes "length y' = length x'" and "y' \<noteq> []"
  shows "hedge_ratio ols (p @ y') x' = ols y' x'"
proof -
  have nx: "x' \<noteq> []" using assms by auto
  have m: "min (length (p @ y')) (length x') = length x'" using assms by simp
  have "slice_last (length x') (p @ y') = y'"
    using assms nx by (simp add: slice_last_def)
  moreover have "slice_last (length x') x' = x'"
    by (simp add: slice_last_def)
  ultimately show ?thesis
    unfolding hedge_ratio_def Let_def m using nx by simp
qed

lemma hedge_ratio_prefix_x:
  assumes "length y' = length x'" and "y' \<noteq> []"
  shows "hedge_ratio ols y' (p @ x') = ols y' x'"
proof -
  have nx: "x' \<noteq> []" using assms by auto
  have m: "min (length y') (length (p @ x')) = length y'" using assms by simp
  have "slice_last (length y') (p @ x') = x'"
    using assms nx by (simp add: slice_last_def)
  moreover have "slice_last (length y') y' = y'"
    by (simp add: slice_last_def)
  ultimately show ?thesis
    unfolding hedge_ratio_def Let_def m using assms(2) by simp
qed

lemma hedge_ratio_trim:
  assumes "y \<noteq> []" and "x \<noteq> []"
  shows "hedge_ratio ols y x =
           ols (drop (length y - min (length y) (length x)) y)
               (drop (length x - min (length y) (length x)) x)"
proof -
  define m where "m = min (length y) (length x)"
  have m: "0 < m" using assms by (simp add: m_def)
  show ?thesis
    unfolding hedge_ratio_def Let_def m_def [symmetric] using m by (simp add: slice_last_def)
qed

text \<open>
  C7. \<open>hedge_ratio\<close> fails with \<open>ValueError\<close> ("Not enough data") when the shorter
  input is empty. For non-empty inputs it fits the regression on the last
  \<open>min (length y) (length x)\<close> elements of each and on nothing else: what precedes them
  in the longer input does not change the result, whatever the regression is.
\<close>

theorem hedge_ratio_uses_trailing:
  "(min (length y) (length x) = 0 \<longrightarrow> hedge_ratio ols y x = Inl ValueError)
   \<and> (y \<noteq> [] \<and> x \<noteq> [] \<longrightarrow>
        (let m = min (length y) (length x);
             yt = drop (length y - m) y;
             xt = drop (length x - m) x
         in hedge_ratio ols y x = ols yt xt
            \<and> length yt = m \<and> length xt = m
            \<and> hedge_ratio ols y x = hedge_ratio ols yt xt))
   \<and> (length y' = length x' \<and> y' \<noteq> [] \<longrightarrow>
        hedge_ratio ols (p @ y') x' = hedge_ratio ols y' x'
        \<and> hedge_ratio ols y' (p @ x') = hedge_ratio ols y' x')"
proof (intro conjI impI)
  assume "min (length y) (length x) = 0"
  then show "hedge_ratio ols y x = Inl ValueError"
    by (simp add: hedge_ratio_def)
next
  assume ne: "y \<noteq> [] \<and> x \<noteq> []"
  define m where "m = min (length y) (length x)"
  define yt where "yt = drop (length y - m) y"
  define xt where "xt = drop (length x - m) x"
  have m: "0 < m" "m \<le> length y" "m \<le> length x"
    using ne by (simp_all add: m_def)
  have h: "hedge_ratio ols y x = ols yt xt"
    unfolding yt_def xt_def m_def using ne by (intro hedge_ratio_trim) simp_all
  have ly: "length yt = m" and lx: "length xt = m"
    using m by (simp_all add: yt_def xt_def)
  have "yt \<noteq> []" using ly m(1) by auto
  then have "hedge_ratio ols yt xt = ols yt xt"
    using ly lx by (intro hedge_ratio_equal_lengths) simp_all
  then show "let m = min (length y) (length x);
             yt = drop (length y - m) y;
             xt = drop (length x - m) x
         in hedge_ratio ols y x = ols yt xt
            \<and> length yt = m \<and> length xt = m
            \<and> hedge_ratio ols y x = hedge_ratio ols yt xt"
    unfolding Let_def m_def [symmetric] yt_def [symmetric] xt_def [symmetric]
    using h ly lx by simp
next
  assume a: "length y' = length x' \<and> y' \<noteq> []"
  then show "hedge_ratio ols (p @ y') x' = hedge_ratio ols y' x'"
    by (simp add: hedge_ratio_prefix_y hedge_ratio_equal_lengths)
next
  assume a: "length y' = length x' \<and> y' \<noteq> []"
  then show "hedge_ratio ols y' (p @ x') = hedge_ratio ols y' x'"
    by (simp add: hedge_ratio_prefix_x hedge_ratio_equal_lengths)
qed

theorem hedge_ratio_uses_trailing_witness:
  "hedge_ratio ols_slope [100, 200, 300, 2, 4, 6, 8, 10, 12, 14] [1, 2, 3, 4, 5, 6, 7] = Inr 2
   \<and> hedge_ratio ols_slope [] [1, 2] = Inl ValueError"
proof -
  note T = hedge_ratio_uses_trailing [of "[]" "[1, 2]" ols_slope
             "[2, 4, 6, 8, 10, 12, 14]" "[1, 2, 3, 4, 5, 6, 7]" "[100, 200, 300]"]
  have e: "hedge_ratio ols_slope [] [1, 2] = Inl ValueError"
    using T by simp
  have "hedge_ratio ols_slope ([100, 200, 300] @ [2, 4, 6, 8, 10, 12, 14]) [1, 2, 3, 4, 5, 6, 7]
        = hedge_ratio ols_slope [2, 4, 6, 8, 10, 12, 14] [1, 2, 3, 4, 5, 6, 7]"
    using T by simp
  also have "\<dots> = ols_slope [2, 4, 6, 8, 10, 12, 14] [1, 2, 3, 4, 5, 6, 7]"
    by (rule hedge_ratio_equal_lengths) simp_all
  also have "\<dots> = Inr 2"
    by (simp add: ols_slope_def mean_def)
  finally show ?thesis using e by simp
qed

lemma zscore_replicate:
  "zscore rnd mean_k std_k (replicate n c) =
     Inr (replicate n (fl_div rnd (fl_sub rnd (Num c) (mean_k (replicate n c)))
                                  (std_k (replicate n c))))"
  by (simp add: zscore_def map_replicate)

lemma zscore_entry_exact_constant:
  assumes "rnd 0 = Num 0" and "m = Num c" and "s = Num 0 \<or> s = NaN"
  shows "fl_div rnd (fl_sub rnd (Num c) m) s = NaN"
  using assms by auto

text \<open>
  C3, as the code has it. \<open>zscore\<close> of a constant series of any length raises nothing,
  whatever the float64 mean, standard deviation and rounding are: it returns a series of
  the same length whose entries are all the same value. When the computed mean is the
  constant itself and the computed standard deviation is zero (or \<open>NaN\<close>, as it is below
  two values), and zero rounds to zero, every entry is \<open>NaN\<close>.
\<close>

theorem zscore_constant_no_error:
  "(\<exists>x. zscore rnd mean_k std_k (replicate n c) = Inr (replicate n x))
   \<and> (rnd 0 = Num 0 \<and> mean_k (replicate n c) = Num c
        \<and> (std_k (replicate n c) = Num 0 \<or> std_k (replicate n c) = NaN)
      \<longrightarrow> zscore rnd mean_k std_k (replicate n c) = Inr (replicate n NaN))"
proof (intro conjI impI)
  show "\<exists>x. zscore rnd mean_k std_k (replicate n c) = Inr (replicate n x)"
    unfolding zscore_replicate by blast
next
  assume a: "rnd 0 = Num 0 \<and> mean_k (replicate n c) = Num c
        \<and> (std_k (replicate n c) = Num 0 \<or> std_k (replicate n c) = NaN)"
  then have "fl_div rnd (fl_sub rnd (Num c) (mean_k (replicate n c))) (std_k (replicate n c)) = NaN"
    by (intro zscore_entry_exact_constant) simp_all
  then show "zscore rnd mean_k std_k (replicate n c) = Inr (replicate n NaN)"
    unfolding zscore_replicate by simp
qed

theorem zscore_constant_no_error_witness:
  "zscore Num exact_mean exact_std [2, 2] = Inr [NaN, NaN]
   \<and> zscore Num exact_mean exact_std [7] = Inr [NaN]"
proof -
  have m2: "exact_mean (replicate (Suc (Suc 0)) 2) = Num 2"
    by (simp add: exact_mean_def mean_def)
  have s2: "exact_std (replicate (Suc (Suc 0)) 2) = Num 0"
    by (simp add: exact_std_def mean_def)
  have "zscore Num exact_mean exact_std (replicate (Suc (Suc 0)) 2)
          = Inr (replicate (Suc (Suc 0)) NaN)"
    using zscore_constant_no_error [of Num exact_mean exact_std "Suc (Suc 0)" 2] m2 s2
    by blast
  then have a: "zscore Num exact_mean exact_std [2, 2] = Inr [NaN, NaN]" by simp
  have m1: "exact_mean (replicate (Suc 0) 7) = Num 7"
    by (simp add: exact_mean_def mean_def)
  have s1: "exact_std (replicate (Suc 0) 7) = NaN"
    by (simp add: exact_std_def)
  have "zscore Num exact_mean exact_std (replicate (Suc 0) 7) = Inr (replicate (Suc 0) NaN)"
    using zscore_constant_no_error [of Num exact_mean exact_std "Suc 0" 7] m1 s1
    by blast
  then have b: "zscore Num exact_mean exact_std [7] = Inr [NaN]" by simp
  show ?thesis using a b by (rule conjI)
qed

text \<open>
  C3, as the specification states it, fails on the code: on the constant series
  5, 5, 5, where the float64 mean is 5 and the standard deviation 0 without any rounding,
  the call returns three \<open>NaN\<close> values and no error.
\<close>

theorem zscore_constant_counterexample:
  "zscore Num exact_mean exact_std [5, 5, 5] = Inr [NaN, NaN, NaN]
   \<and> (\<forall>e. zscore Num exact_mean exact_std [5, 5, 5] \<noteq> Inl e)"
  by (simp add: zscore_def exact_mean_def exact_std_def mean_def)

section \<open>Properties of pruning\<close>

lemma iso_old: "isoformat 1704103200000 = ''2024-01-01T10:00:00+00:00''"
  by code_simp
lemma iso_new: "isoformat 1704135600000 = ''2024-01-01T19:00:00+00:00''"
  by code_simp
lemma cutoff: "sqlite_datetime (1704139200 - 6 * 3600) = ''2024-01-01 14:00:00''"
  by code_simp

lemma prune_keeps_bars:
  "prune_ticks_older_than fails now hours d = Inr d' \<Longrightarrow> bar_tables d' = bar_tables d"
  by (auto simp: prune_ticks_older_than_def split: option.splits if_splits)

lemma less_append_same_length:
  "length a = length b \<Longrightarrow> (a @ x < b @ y) = (a < b \<or> a = b \<and> x < (y :: 'c :: linorder list))"
  by (induction a b rule: list_induct2) auto

lemma length_date_text: "length (date_text z) = 10"
  by (simp add: date_text_def pad4_def pad2_def split: prod.splits)

lemma iso_less_sqlite:
  "(isoformat ms < sqlite_datetime s) = (date_text (ms div 86400000) < date_text (s div 86400))"
proof -
  have "\<not> (''T'' @ u < '' '' @ v)" for u v :: string
    by simp
  then show ?thesis
    unfolding isoformat_def sqlite_datetime_def Let_def
    by (simp add: less_append_same_length length_date_text)
qed

lemma prune_deletes_by_date:
  "prune_ticks_older_than False now (Some h) d = Inr d' \<Longrightarrow> 0 \<le> h \<Longrightarrow>
     row_of_tick t \<in> set (ticks d) \<Longrightarrow>
     (row_of_tick t \<in> set (ticks d')) =
       (\<not> date_text (t_time t div 86400000) < date_text ((now - h * 3600) div 86400))"
  by (auto simp: prune_ticks_older_than_def row_of_tick_def iso_less_sqlite)

text \<open>
  C2 fails on the code. With the clock at 2024-01-01 20:00:00 UTC and a horizon of 6
  hours, the ticks of 10:00:00 (ten hours old) and 19:00:00 (one hour old) are written
  with \<open>insert_ticks_bulk\<close> and pruned: both are still there. The stored text
  \<open>2024-01-01T10:00:00+00:00\<close> is not below the cutoff \<open>2024-01-01 14:00:00\<close>,
  because \<open>T\<close> comes after the space; only ticks of an earlier day than the cutoff's
  are deleted (\<open>prune_deletes_by_date\<close>). Bars are never touched (\<open>prune_keeps_bars\<close>).
\<close>

theorem prune_keeps_old_tick_of_cutoff_day:
  "insert_ticks_bulk False
     [\<lparr>t_time = 1704103200000, t_symbol = ''btcusdt'', price = 100, qty = 1\<rparr>,
      \<lparr>t_time = 1704135600000, t_symbol = ''btcusdt'', price = 101, qty = 2\<rparr>] empty_db
   = Inr \<lparr>ticks = [\<lparr>r_time = ''2024-01-01T10:00:00+00:00'', r_symbol = ''btcusdt'', r_price = 100, r_qty = 1\<rparr>,
                   \<lparr>r_time = ''2024-01-01T19:00:00+00:00'', r_symbol = ''btcusdt'', r_price = 101, r_qty = 2\<rparr>],
          bar_tables = (\<lambda>tbl. [])\<rparr>
   \<and> prune_ticks_older_than False 1704139200 (Some 6)
       \<lparr>ticks = [\<lparr>r_time = ''2024-01-01T10:00:00+00:00'', r_symbol = ''btcusdt'', r_price = 100, r_qty = 1\<rparr>,
                 \<lparr>r_time = ''2024-01-01T19:00:00+00:00'', r_symbol = ''btcusdt'', r_price = 101, r_qty = 2\<rparr>],
        bar_tables = (\<lambda>tbl. [])\<rparr>
   = Inr \<lparr>ticks = [\<lparr>r_time = ''2024-01-01T10:00:00+00:00'', r_symbol = ''btcusdt'', r_price = 100, r_qty = 1\<rparr>,
                   \<lparr>r_time = ''2024-01-01T19:00:00+00:00'', r_symbol = ''btcusdt'', r_price = 101, r_qty = 2\<rparr>],
          bar_tables = (\<lambda>tbl. [])\<rparr>"
  by (simp add: insert_ticks_bulk_def row_of_tick_def empty_db_def iso_old iso_new
        prune_ticks_older_than_def cutoff [simplified])

section \<open>Properties of the flush loop\<close>

lemma flush_cycle_insert_fails:
  "c_batch c \<noteq> [] \<Longrightarrow> InsertTicks \<in> set (raises c) \<Longrightarrow>
     flush_cycle rh c d lp = (Some SqliteError, d, lp)"
  by (simp add: flush_cycle_def insert_ticks_bulk_def)

lemma flush_loop_terminates_on_error:
  "flush_cycle rh c d lp = (Some e, d', lp') \<Longrightarrow>
     flush_loop rh (c # cs) d lp = Terminated e d' cs"
  by simp

lemma flush_loop_insert_fails:
  "c_batch c \<noteq> [] \<Longrightarrow> InsertTicks \<in> set (raises c) \<Longrightarrow>
     flush_loop rh (c # cs) d lp = Terminated SqliteError d cs"
  by (simp add: flush_cycle_insert_fails)

text \<open>
  C1 fails on the code. The bulk insert of the first cycle raises; the exception is not
  caught in \<open>_flush_loop\<close>, so the loop ends there: the worker is terminated with the
  store as it was, and the second cycle, whose writes would all succeed, is never run.
  The same holds for every cycle whose insert raises (\<open>flush_loop_insert_fails\<close>).
\<close>

theorem flush_loop_dies_on_persistence_error:
  "flush_loop (Some 6)
     [\<lparr>c_batch = [\<lparr>t_time = 1704103200000, t_symbol = ''btcusdt'', price = 100, qty = 1\<rparr>],
       raises = [InsertTicks], check_time = 1, sql_now = 1704103201, after_time = 1\<rparr>,
      \<lparr>c_batch = [\<lparr>t_time = 1704103201000, t_symbol = ''btcusdt'', price = 101, qty = 2\<rparr>],
       raises = [], check_time = 2, sql_now = 1704103202, after_time = 2\<rparr>]
     empty_db 0
   = Terminated SqliteError empty_db
      [\<lparr>c_batch = [\<lparr>t_time = 1704103201000, t_symbol = ''btcusdt'', price = 101, qty = 2\<rparr>],
        raises = [], check_time = 2, sql_now = 1704103202, after_time = 2\<rparr>]"
  by (simp add: flush_cycle_insert_fails)

section \<open>Properties of the rolling correlation\<close>









end
